theory Spec2Isabelle
  imports Main "HOL-Library.Sublist"
begin

section \<open>Python string operations used by app.py\<close>

text \<open>
  A Python \<open>str\<close> is modelled as a \<open>string\<close> whose characters stand for the code points
  below 256. On this range \<open>str.lower\<close> is a character-wise map and the characters that
  \<open>str.strip()\<close> removes are the twelve listed in \<open>whitespace\<close>.
\<close>

definition whitespace :: "char list" where
  "whitespace =
     [CHR 0x09, CHR 0x0A, CHR 0x0B, CHR 0x0C, CHR 0x0D,
      CHR 0x1C, CHR 0x1D, CHR 0x1E, CHR 0x1F, CHR 0x20, CHR 0x85, CHR 0xA0]"

definition isspace :: "char \<Rightarrow> bool" where
  "isspace c = (c \<in> set whitespace)"

definition lower_char :: "char \<Rightarrow> char" where
  "lower_char c =
     (let n = (of_char c :: nat)
      in if (65 \<le> n \<and> n \<le> 90) \<or> (192 \<le> n \<and> n \<le> 222 \<and> n \<noteq> 215)
         then char_of (n + 32) else c)"

text \<open>\<open>s.lower()\<close>\<close>

definition str_lower :: "string \<Rightarrow> string" where
  "str_lower s = map lower_char s"

text \<open>\<open>s.strip()\<close>: leading, then trailing whitespace is dropped.\<close>

definition str_lstrip :: "string \<Rightarrow> string" where
  "str_lstrip s = dropWhile isspace s"

definition str_rstrip :: "string \<Rightarrow> string" where
  "str_rstrip s = rev (dropWhile isspace (rev s))"

definition str_strip :: "string \<Rightarrow> string" where
  "str_strip s = str_rstrip (str_lstrip s)"

text \<open>
  \<open>s.split(sep)\<close> for a separator of one character: the fields between the occurrences of
  the separator, in order; never the empty list (\<open>"".split("|")\<close> is \<open>[""]\<close>).
\<close>

fun str_split :: "char \<Rightarrow> string \<Rightarrow> string list" where
  "str_split sep [] = [[]]"
| "str_split sep (c # cs) =
     (if c = sep then [] # str_split sep cs
      else (case str_split sep cs of
              [] \<Rightarrow> [[c]]
            | f # fs \<Rightarrow> (c # f) # fs))"

text \<open>\<open>sep.join(xs)\<close>\<close>

fun str_join :: "string \<Rightarrow> string list \<Rightarrow> string" where
  "str_join sep [] = []"
| "str_join sep [x] = x"
| "str_join sep (x # y # ys) = x @ sep @ str_join sep (y # ys)"

text \<open>\<open>sub in s\<close> for two strings: \<open>sub\<close> occurs in \<open>s\<close> as a contiguous run.\<close>

fun str_contains :: "string \<Rightarrow> string \<Rightarrow> bool" where
  "str_contains sub [] = (sub = [])"
| "str_contains sub (c # cs) = (prefix sub (c # cs) \<or> str_contains sub cs)"

text \<open>\<open>s.endswith(suf)\<close>\<close>

definition str_endswith :: "string \<Rightarrow> string \<Rightarrow> bool" where
  "str_endswith s suf = suffix suf s"

text \<open>
  \<open>s.rsplit(sep, 1)\<close> for a separator of one character: the text before the last
  separator and the text after it, or the whole string alone when there is no separator.
\<close>

definition str_rsplit1 :: "char \<Rightarrow> string \<Rightarrow> string list" where
  "str_rsplit1 sep s =
     (if sep \<in> set s
      then [rev (tl (dropWhile (\<lambda>c. c \<noteq> sep) (rev s))), rev (takeWhile (\<lambda>c. c \<noteq> sep) (rev s))]
      else [s])"

section \<open>Exceptions and results\<close>

text \<open>
  An exception is a value; \<open>exn_str\<close> is Python's \<open>str(e)\<close>. A computation that may raise
  returns \<open>exn + 'a\<close>, with \<open>Inl\<close> for the raised exception. \<open>ValueError\<close> carries its
  message, \<open>FileNotFoundError\<close> (raised by \<open>open\<close> and \<open>os.remove\<close>) and python-docx's
  \<open>PackageNotFoundError\<close> carry the path, written between single quotes in the message as
  Python does for a path of plain characters, and \<open>LibraryError\<close> stands for whatever else
  a library or the Model Gateway raises, with its message.
\<close>

datatype exn =
  ValueError string | FileNotFoundError string | PackageNotFoundError string | LibraryError string

fun exn_str :: "exn \<Rightarrow> string" where
  "exn_str (ValueError m) = m"
| "exn_str (FileNotFoundError path) =
     ''[Errno 2] No such file or directory: '' @ [CHR 0x27] @ path @ [CHR 0x27]"
| "exn_str (PackageNotFoundError path) =
     ''Package not found at '' @ [CHR 0x27] @ path @ [CHR 0x27]"
| "exn_str (LibraryError m) = m"

section \<open>The table extractor\<close>

record table =
  headers :: "string list"
  rows :: "string list list"

text \<open>The condition of the \<open>if\<close> in the loop of \<open>extract_table\<close>.\<close>

definition keep_line :: "string \<Rightarrow> bool" where
  "keep_line line =
     (CHR ''|'' \<in> set line
      \<and> \<not> str_contains ''customize'' (str_lower line)
      \<and> \<not> str_contains ''spreadsheet'' (str_lower line))"

text \<open>The \<open>for line in lines\<close> loop, with \<open>table_lines\<close> as the accumulator.\<close>

fun collect_table_lines :: "string list \<Rightarrow> string list \<Rightarrow> string list" where
  "collect_table_lines [] table_lines = table_lines"
| "collect_table_lines (line # lines) table_lines =
     collect_table_lines lines (if keep_line line then table_lines @ [line] else table_lines)"

text \<open>The value of \<open>table_lines\<close> when the loop has ended.\<close>

definition table_lines :: "string \<Rightarrow> string list" where
  "table_lines response_text =
     collect_table_lines (str_split CHR ''\<newline>'' (str_strip response_text)) []"

definition split_cells :: "string \<Rightarrow> string list" where
  "split_cells line = map str_strip (str_split CHR ''|'' line)"

definition extract_table :: "string \<Rightarrow> exn + table" where
  "extract_table response_text =
     (case table_lines response_text of
        [] \<Rightarrow> Inl (ValueError ''No table detected in the response.'')
      | header_line # data_lines \<Rightarrow>
          Inr \<lparr>headers = split_cells header_line, rows = map split_cells data_lines\<rparr>)"

section \<open>The world around the handlers\<close>

text \<open>
  One dialogue turn, as the handlers build it: \<open>{"role": ..., "parts": [...]}\<close>.
\<close>

record turn =
  role :: string
  parts :: "string list"

text \<open>
  What a handler does beyond computing its answer is recorded in order: a call of the
  Model Gateway (\<open>model.start_chat(history=...)\<close> followed by \<open>send_message\<close>), with the
  history and the message it was given, and a call of \<open>extract_table\<close>.
\<close>

datatype event = SendMessage "turn list" string | ExtractTable string

text \<open>
  The mutable state of the process: the global \<open>conversation_history\<close>, the regular files
  on disk (path to content) and the record of calls.
\<close>

record world =
  conversation_history :: "turn list"
  disk :: "string \<rightharpoonup> string"
  events :: "event list"

text \<open>
  The collaborators that app.py imports, as they answer during one request: the result of
  the connectivity probe, the reply of the Model Gateway (\<open>response.text\<close>, or the exception
  raised by \<open>start_chat\<close>, \<open>send_message\<close> or \<open>.text\<close>), the page texts PyPDF2 reads from a
  file's content, the paragraph texts python-docx reads, werkzeug's \<open>secure_filename\<close>, and
  \<open>os.getcwd()\<close>.
\<close>

record env =
  network_up :: bool
  send_message :: "turn list \<Rightarrow> string \<Rightarrow> exn + string"
  pdf_pages :: "string \<Rightarrow> exn + string list"
  docx_paragraphs :: "string \<Rightarrow> exn + string list"
  secure_filename :: "string \<Rightarrow> string"
  getcwd :: string

text \<open>The JSON object a handler returns: \<open>{"response": ...}\<close>, with or without \<open>"table"\<close>.\<close>

record payload =
  response :: string
  table :: "table option"

definition net_check :: "env \<Rightarrow> bool" where
  "net_check e = (if network_up e then True else False)"

definition ALLOWED_EXTENSIONS :: "string set" where
  "ALLOWED_EXTENSIONS = {''pdf'', ''docx''}"

definition allowed_file :: "string \<Rightarrow> bool" where
  "allowed_file fname =
     (CHR ''.'' \<in> set fname
      \<and> str_lower (str_rsplit1 CHR ''.'' fname ! 1) \<in> ALLOWED_EXTENSIONS)"

text \<open>
  \<open>open(file_path, 'rb')\<close> raises \<open>FileNotFoundError\<close> when there is no such file, and
  \<open>docx.Document(file_path)\<close> raises \<open>PackageNotFoundError\<close>.
\<close>

definition extract_pdf_text :: "env \<Rightarrow> (string \<rightharpoonup> string) \<Rightarrow> string \<Rightarrow> exn + string" where
  "extract_pdf_text e d file_path =
     (case d file_path of
        None \<Rightarrow> Inl (FileNotFoundError file_path)
      | Some content \<Rightarrow>
          (case pdf_pages e content of
             Inl err \<Rightarrow> Inl err
           | Inr pages \<Rightarrow> Inr (foldl (\<lambda>text page. text @ page) [] pages)))"

definition extract_docx_text :: "env \<Rightarrow> (string \<rightharpoonup> string) \<Rightarrow> string \<Rightarrow> exn + string" where
  "extract_docx_text e d file_path =
     (case d file_path of
        None \<Rightarrow> Inl (PackageNotFoundError file_path)
      | Some content \<Rightarrow>
          (case docx_paragraphs e content of
             Inl err \<Rightarrow> Inl err
           | Inr paragraphs \<Rightarrow> Inr (str_join ''\<newline>'' paragraphs)))"

text \<open>\<open>os.path.join(a, b)\<close> on POSIX, for two components.\<close>

definition os_path_join :: "string \<Rightarrow> string \<Rightarrow> string" where
  "os_path_join a b =
     (if prefix ''/'' b then b
      else if a = [] \<or> suffix ''/'' a then a @ b
      else a @ ''/'' @ b)"

text \<open>\<open>os.remove(path)\<close>\<close>

definition os_remove :: "(string \<rightharpoonup> string) \<Rightarrow> string \<Rightarrow> exn + (string \<rightharpoonup> string)" where
  "os_remove d path =
     (case d path of
        None \<Rightarrow> Inl (FileNotFoundError path)
      | Some content \<Rightarrow> Inr (d(path := None)))"

definition jsonify_response :: "string \<Rightarrow> payload" where
  "jsonify_response text = \<lparr>response = text, table = None\<rparr>"

definition append_turn :: "string \<Rightarrow> string \<Rightarrow> world \<Rightarrow> world" where
  "append_turn r text w =
     w\<lparr>conversation_history :=
         conversation_history w @ [\<lparr>role = r, parts = [text @ ''\<newline>'']\<rparr>]\<rparr>"

definition record_event :: "event \<Rightarrow> world \<Rightarrow> world" where
  "record_event ev w = w\<lparr>events := events w @ [ev]\<rparr>"

section \<open>The /chat handler\<close>

text \<open>The condition under which \<open>chat\<close> calls \<open>extract_table\<close>.\<close>

definition table_trigger :: "string \<Rightarrow> string \<Rightarrow> bool" where
  "table_trigger user_input response_text =
     (str_contains ''timetable'' (str_lower user_input)
      \<or> str_contains ''table form'' (str_lower user_input)
      \<or> str_contains ''tabular'' (str_lower response_text))"

text \<open>The body of the \<open>try\<close> block of \<open>chat\<close>; the \<open>Inl\<close> branch is its \<open>except\<close> clause.\<close>

definition chat_try :: "env \<Rightarrow> string \<Rightarrow> world \<Rightarrow> payload \<times> world" where
  "chat_try e user_input w =
     (let w1 = append_turn ''user'' user_input w;
          w2 = record_event (SendMessage (conversation_history w1) user_input) w1
      in case send_message e (conversation_history w1) user_input of
           Inl err \<Rightarrow> (jsonify_response (''Error: '' @ exn_str err), w2)
         | Inr text \<Rightarrow>
             (let response_text = str_strip text;
                  w3 = append_turn ''model'' response_text w2
              in if table_trigger user_input response_text
                 then (let w4 = record_event (ExtractTable response_text) w3
                       in case extract_table response_text of
                            Inr table_data \<Rightarrow>
                              (\<lparr>response = response_text, table = Some table_data\<rparr>, w4)
                          | Inl err \<Rightarrow> (jsonify_response response_text, w4))
                 else (jsonify_response response_text, w3)))"

text \<open>
  \<open>chat\<close>, given the JSON object of the request body (its keys with string values).
\<close>

definition chat :: "env \<Rightarrow> (string \<rightharpoonup> string) \<Rightarrow> world \<Rightarrow> payload \<times> world" where
  "chat e data w =
     (let user_input = str_strip (case data ''user_input'' of None \<Rightarrow> [] | Some v \<Rightarrow> v)
      in if user_input = [] then (jsonify_response ''Input cannot be empty.'', w)
         else if \<not> net_check e
         then (jsonify_response ''Network error. Please check your connection.'', w)
         else chat_try e user_input w)"

section \<open>The /upload handler\<close>

text \<open>An uploaded file: its client-side name and its content.\<close>

record file_storage =
  filename :: string
  stream :: string

text \<open>
  The \<open>try\<close> block of \<open>upload_file\<close> from the point where the text extractor has answered;
  every \<open>Inl\<close> branch is its \<open>except\<close> clause.
\<close>

definition upload_try :: "env \<Rightarrow> string \<Rightarrow> exn + string \<Rightarrow> world \<Rightarrow> payload \<times> world" where
  "upload_try e file_path extracted w =
     (case extracted of
        Inl err \<Rightarrow> (jsonify_response (''Error processing file: '' @ exn_str err), w)
      | Inr file_content \<Rightarrow>
          (case os_remove (disk w) file_path of
             Inl err \<Rightarrow> (jsonify_response (''Error processing file: '' @ exn_str err), w)
           | Inr d \<Rightarrow>
               (let w1 = append_turn ''user'' file_content (w\<lparr>disk := d\<rparr>);
                    w2 = record_event (SendMessage (conversation_history w1) file_content) w1
                in case send_message e (conversation_history w1) file_content of
                     Inl err \<Rightarrow>
                       (jsonify_response (''Error processing file: '' @ exn_str err), w2)
                   | Inr text \<Rightarrow>
                       (let response_text = str_strip text
                        in (jsonify_response response_text,
                            append_turn ''model'' response_text w2)))))"

text \<open>
  \<open>upload_file\<close>, given \<open>request.files\<close>. A \<open>FileStorage\<close> is true exactly when its
  filename is not empty; \<open>file.save\<close> writes the content at the path.
\<close>

definition upload_file :: "env \<Rightarrow> (string \<rightharpoonup> file_storage) \<Rightarrow> world \<Rightarrow> payload \<times> world" where
  "upload_file e files w =
     (case files ''file'' of
        None \<Rightarrow> (jsonify_response ''No file part in the request.'', w)
      | Some file \<Rightarrow>
          if filename file = [] then (jsonify_response ''No file selected.'', w)
          else if filename file \<noteq> [] \<and> allowed_file (filename file)
          then (let upload_folder = os_path_join (getcwd e) ''uploads'';
                    fname = secure_filename e (filename file);
                    file_path = os_path_join upload_folder fname;
                    w1 = w\<lparr>disk := (disk w)(file_path \<mapsto> stream file)\<rparr>
                in if str_endswith fname ''.pdf''
                   then upload_try e file_path (extract_pdf_text e (disk w1) file_path) w1
                   else if str_endswith fname ''.docx''
                   then upload_try e file_path (extract_docx_text e (disk w1) file_path) w1
                   else (jsonify_response ''Unsupported file format.'', w1))
          else (jsonify_response ''Invalid file type. Only PDF and DOCX are allowed.'', w))"

section \<open>Requests in sequence\<close>

text \<open>The two routes that reach the conversation store, with their request data.\<close>

datatype request = PostChat "string \<rightharpoonup> string" | PostUpload "string \<rightharpoonup> file_storage"

fun handle :: "env \<Rightarrow> request \<Rightarrow> world \<Rightarrow> payload \<times> world" where
  "handle e (PostChat data) w = chat e data w"
| "handle e (PostUpload files) w = upload_file e files w"

text \<open>
  The world after a sequence of requests served one after another, each to completion
  before the next begins and each under the answers its collaborators gave at that time.
  The handlers take no lock on \<open>conversation_history\<close>; requests that overlap in time are
  not described by \<open>run\<close>.
\<close>

fun run :: "(env \<times> request) list \<Rightarrow> world \<Rightarrow> world" where
  "run [] w = w"
| "run ((e, req) # rest) w = run rest (snd (handle e req w))"

text \<open>The process at start: \<open>conversation_history = []\<close>, nothing saved, nothing called.\<close>

definition initial_world :: world where
  "initial_world = \<lparr>conversation_history = [], disk = Map.empty, events = []\<rparr>"

section \<open>Properties of the store\<close>








section \<open>Sample collaborators and requests\<close>

definition sample_env :: env where
  "sample_env =
     \<lparr>network_up = True,
      send_message = (\<lambda>h m. Inr '' Here it is: \<newline>Day | Subject\<newline>Mon | Maths \<newline>''),
      pdf_pages = (\<lambda>content. Inr [content]),
      docx_paragraphs = (\<lambda>content. Inr [content]),
      secure_filename = (\<lambda>name. name),
      getcwd = ''/srv/app''\<rparr>"

definition prose_env :: env where
  "prose_env = sample_env\<lparr>send_message := (\<lambda>h m. Inr ''In tabular form: none. '')\<rparr>"

definition failing_gateway_env :: env where
  "failing_gateway_env =
     sample_env\<lparr>send_message := (\<lambda>h m. Inl (LibraryError ''429 quota exceeded''))\<rparr>"

definition corrupt_pdf_env :: env where
  "corrupt_pdf_env =
     sample_env\<lparr>pdf_pages := (\<lambda>content. Inl (LibraryError ''EOF marker not found''))\<rparr>"

definition greeting_body :: "string \<rightharpoonup> string" where
  "greeting_body = [''user_input'' \<mapsto> '' hello '']"

definition timetable_body :: "string \<rightharpoonup> string" where
  "timetable_body = [''user_input'' \<mapsto> ''Generate a Timetable'']"

definition blank_body :: "string \<rightharpoonup> string" where
  "blank_body = [''user_input'' \<mapsto> ''  \<newline> '']"

definition no_input_body :: "string \<rightharpoonup> string" where
  "no_input_body = [''message'' \<mapsto> ''hello'']"

definition pdf_upload :: "string \<rightharpoonup> file_storage" where
  "pdf_upload = [''file'' \<mapsto> \<lparr>filename = ''notes.pdf'', stream = ''%PDF-1.7 ...''\<rparr>]"


definition txt_upload :: "string \<rightharpoonup> file_storage" where
  "txt_upload = [''file'' \<mapsto> \<lparr>filename = ''notes.txt'', stream = ''plain text''\<rparr>]"

definition upper_pdf_upload :: "string \<rightharpoonup> file_storage" where
  "upper_pdf_upload = [''file'' \<mapsto> \<lparr>filename = ''report.PDF'', stream = ''%PDF-1.7 ...''\<rparr>]"

section \<open>Facts about the string operations\<close>

lemma collect_table_lines_filter:
  "collect_table_lines lines acc = acc @ filter keep_line lines"
  by (induction lines arbitrary: acc) simp_all

lemma table_lines_filter:
  "table_lines text = filter keep_line (str_split CHR ''\<newline>'' (str_strip text))"
  by (simp add: table_lines_def collect_table_lines_filter)

lemma str_contains_sublist: "str_contains sub s \<longleftrightarrow> sublist sub s"
  by (induction s) (simp_all add: sublist_Cons_right)

lemma str_split_not_Nil [simp]: "str_split sep s \<noteq> []"
  by (induction s) (simp_all split: list.splits)

lemma str_split_Cons:
  "str_split sep (c # cs) =
     (if c = sep then [] # str_split sep cs
      else (c # hd (str_split sep cs)) # tl (str_split sep cs))"
  by (cases "str_split sep cs") simp_all

lemma str_split_snoc:
  "str_split sep (cs @ [c]) =
     (if c = sep then str_split sep cs @ [[]]
      else butlast (str_split sep cs) @ [last (str_split sep cs) @ [c]])"
proof (induction cs)
  case Nil
  show ?case by simp
next
  case (Cons a cs)
  obtain f fs where fs: "str_split sep cs = f # fs"
    by (cases "str_split sep cs") simp_all
  show ?case
  proof (cases "c = sep")
    case True
    with Cons fs show ?thesis by simp
  next
    case False
    with Cons fs show ?thesis
      by (cases "fs = []") (auto split: list.splits)
  qed
qed

lemma str_join_split: "str_join [sep] (str_split sep s) = s"
proof (induction s)
  case Nil
  show ?case by simp
next
  case (Cons c cs)
  obtain f fs where fs: "str_split sep cs = f # fs"
    by (cases "str_split sep cs") simp_all
  with Cons show ?case
    by (cases fs) auto
qed

lemma str_split_fields:
  "f \<in> set (str_split sep s) \<Longrightarrow> sep \<notin> set f \<and> set f \<subseteq> set s"
proof (induction s arbitrary: f)
  case Nil
  then show ?case by simp
next
  case (Cons c cs)
  obtain g gs where gs: "str_split sep cs = g # gs"
    by (cases "str_split sep cs") simp_all
  have g: "sep \<notin> set g \<and> set g \<subseteq> set cs"
    using Cons.IH [of g] gs by simp
  have rest: "\<And>h. h \<in> set gs \<Longrightarrow> sep \<notin> set h \<and> set h \<subseteq> set cs"
    using Cons.IH gs by simp
  show ?case
  proof (cases "c = sep")
    case True
    with Cons.prems gs g rest show ?thesis by auto
  next
    case False
    with Cons.prems gs g rest show ?thesis by auto
  qed
qed

lemma set_str_strip: "set (str_strip s) \<subseteq> set s"
proof -
  have "set (str_rstrip t) \<subseteq> set t" for t
    using set_dropWhileD [of _ isspace "rev t"] by (auto simp: str_rstrip_def)
  moreover have "set (str_lstrip s) \<subseteq> set s"
    using set_dropWhileD [of _ isspace s] by (auto simp: str_lstrip_def)
  ultimately show ?thesis
    unfolding str_strip_def by blast
qed

lemma lower_char_space: "isspace x \<Longrightarrow> lower_char x = x"
  by (auto simp: isspace_def whitespace_def lower_char_def)

lemma sublist_space_Cons:
  assumes "k \<noteq> []" "\<not> isspace (hd k)" "isspace x"
  shows "sublist k (x # s) \<longleftrightarrow> sublist k s"
proof -
  have "\<not> prefix k (x # s)"
    using assms by (cases k) auto
  then show ?thesis by (simp add: sublist_Cons_right)
qed

lemma sublist_space_snoc:
  assumes "k \<noteq> []" "\<not> isspace (last k)" "isspace x"
  shows "sublist k (s @ [x]) \<longleftrightarrow> sublist k s"
proof
  assume "sublist k (s @ [x])"
  then obtain ps ss where eq: "s @ [x] = ps @ k @ ss"
    by (auto simp: sublist_def)
  show "sublist k s"
  proof (cases ss rule: rev_cases)
    case Nil
    with eq assms(1) have "last k = x"
      by (metis append_Nil2 last_appendR last_snoc)
    with assms show ?thesis by simp
  next
    case (snoc ss' y)
    with eq have "s = ps @ k @ ss'"
      by (metis append_assoc butlast_snoc)
    then show ?thesis by (auto simp: sublist_def)
  qed
next
  assume "sublist k s"
  then obtain ps ss where "s = ps @ k @ ss"
    by (auto simp: sublist_def)
  then have "s @ [x] = ps @ k @ (ss @ [x])" by simp
  then show "sublist k (s @ [x])"
    unfolding sublist_def by blast
qed

lemma str_strip_Cons_space: "isspace x \<Longrightarrow> str_strip (x # s) = str_strip s"
  by (simp add: str_strip_def str_lstrip_def)

lemma str_strip_snoc_space:
  assumes "isspace x"
  shows "str_strip (s @ [x]) = str_strip s"
proof (cases "\<forall>c\<in>set s. isspace c")
  case True
  then have "dropWhile isspace s = []" and "dropWhile isspace (s @ [x]) = []"
    using assms by simp_all
  then show ?thesis
    by (simp only: str_strip_def str_lstrip_def)
next
  case False
  then have "dropWhile isspace (s @ [x]) = dropWhile isspace s @ [x]"
    by (simp add: dropWhile_append)
  with assms show ?thesis
    by (simp add: str_strip_def str_lstrip_def str_rstrip_def)
qed

lemma str_rstrip_snoc: "str_rstrip (s @ [x]) = (if isspace x then str_rstrip s else s @ [x])"
  by (simp add: str_rstrip_def)

lemma not_space_bar: "isspace x \<Longrightarrow> x \<noteq> CHR ''|''"
  by (auto simp: isspace_def whitespace_def)


lemma keep_line_Nil: "\<not> keep_line []"
  by (simp add: keep_line_def)

lemma keep_line_Cons_space: "isspace x \<Longrightarrow> keep_line (x # l) = keep_line l"
  using not_space_bar [of x]
  by (simp add: keep_line_def str_lower_def str_contains_sublist lower_char_space
      sublist_space_Cons isspace_def whitespace_def)

lemma keep_line_snoc_space: "isspace x \<Longrightarrow> keep_line (l @ [x]) = keep_line l"
  using not_space_bar [of x]
  by (simp add: keep_line_def str_lower_def str_contains_sublist lower_char_space
      sublist_space_snoc isspace_def whitespace_def)

lemma kept_lines_Cons_space:
  assumes \<phi>: "\<And>x l. isspace x \<Longrightarrow> \<phi> (x # l) = \<phi> l" and x: "isspace x"
  shows "map \<phi> (filter keep_line (str_split CHR ''\<newline>'' (x # xs)))
         = map \<phi> (filter keep_line (str_split CHR ''\<newline>'' xs))"
proof -
  obtain f fs where fs: "str_split CHR ''\<newline>'' xs = f # fs"
    by (cases "str_split CHR ''\<newline>'' xs") simp_all
  show ?thesis
  proof (cases "x = CHR ''\<newline>''")
    case True
    then show ?thesis by (simp add: keep_line_Nil)
  next
    case False
    with fs x show ?thesis
      by (simp add: keep_line_Cons_space \<phi>)
  qed
qed

lemma kept_lines_snoc_space:
  assumes \<phi>: "\<And>x l. isspace x \<Longrightarrow> \<phi> (l @ [x]) = \<phi> l" and x: "isspace x"
  shows "map \<phi> (filter keep_line (str_split CHR ''\<newline>'' (xs @ [x])))
         = map \<phi> (filter keep_line (str_split CHR ''\<newline>'' xs))"
proof -
  obtain ls l where S: "str_split CHR ''\<newline>'' xs = ls @ [l]"
    by (cases "str_split CHR ''\<newline>'' xs" rule: rev_cases) simp_all
  show ?thesis
  proof (cases "x = CHR ''\<newline>''")
    case True
    then show ?thesis by (simp add: str_split_snoc keep_line_Nil)
  next
    case False
    with S x show ?thesis
      by (simp add: str_split_snoc keep_line_snoc_space \<phi>)
  qed
qed

lemma kept_lines_lstrip:
  assumes \<phi>: "\<And>x l. isspace x \<Longrightarrow> \<phi> (x # l) = \<phi> l"
  shows "map \<phi> (filter keep_line (str_split CHR ''\<newline>'' (str_lstrip t)))
         = map \<phi> (filter keep_line (str_split CHR ''\<newline>'' t))"
proof (induction t)
  case Nil
  show ?case by (simp add: str_lstrip_def)
next
  case (Cons x t)
  show ?case
  proof (cases "isspace x")
    case True
    have "str_lstrip (x # t) = str_lstrip t"
      using True by (simp add: str_lstrip_def)
    with Cons kept_lines_Cons_space [of \<phi> x t, OF \<phi> True] show ?thesis
      by simp
  next
    case False
    then show ?thesis by (simp add: str_lstrip_def)
  qed
qed

lemma kept_lines_rstrip:
  assumes \<phi>: "\<And>x l. isspace x \<Longrightarrow> \<phi> (l @ [x]) = \<phi> l"
  shows "map \<phi> (filter keep_line (str_split CHR ''\<newline>'' (str_rstrip t)))
         = map \<phi> (filter keep_line (str_split CHR ''\<newline>'' t))"
proof (induction t rule: rev_induct)
  case Nil
  show ?case by (simp add: str_rstrip_def)
next
  case (snoc x t)
  show ?case
  proof (cases "isspace x")
    case True
    with snoc kept_lines_snoc_space [of \<phi> x t, OF \<phi> True] show ?thesis
      by (simp only: str_rstrip_snoc if_True)
  next
    case False
    then show ?thesis by (simp only: str_rstrip_snoc if_False)
  qed
qed

lemma kept_lines_strip:
  assumes "\<And>x l. isspace x \<Longrightarrow> \<phi> (x # l) = \<phi> l"
    and "\<And>x l. isspace x \<Longrightarrow> \<phi> (l @ [x]) = \<phi> l"
  shows "map \<phi> (filter keep_line (str_split CHR ''\<newline>'' (str_strip t)))
         = map \<phi> (filter keep_line (str_split CHR ''\<newline>'' t))"
  unfolding str_strip_def
  using kept_lines_rstrip [of \<phi> "str_lstrip t", OF assms(2)]
    kept_lines_lstrip [of \<phi> t, OF assms(1)]
  by simp

lemma split_cells_Cons_space: "isspace x \<Longrightarrow> split_cells (x # l) = split_cells l"
  using not_space_bar [of x]
  by (cases "str_split CHR ''|'' l") (simp_all add: split_cells_def str_strip_Cons_space)

lemma split_cells_snoc_space:
  assumes "isspace x"
  shows "split_cells (l @ [x]) = split_cells l"
proof -
  obtain cs c where C: "str_split CHR ''|'' l = cs @ [c]"
    by (cases "str_split CHR ''|'' l" rule: rev_cases) simp_all
  with not_space_bar [OF assms] assms show ?thesis
    by (simp add: split_cells_def str_split_snoc str_strip_snoc_space)
qed

lemma cells_of_kept_lines:
  "map split_cells (filter keep_line (str_split CHR ''\<newline>'' (str_strip t)))
   = map split_cells (filter keep_line (str_split CHR ''\<newline>'' t))"
  by (rule kept_lines_strip) (simp_all add: split_cells_Cons_space split_cells_snoc_space)

lemma strip_of_kept_lines:
  "map str_strip (filter keep_line (str_split CHR ''\<newline>'' (str_strip t)))
   = map str_strip (filter keep_line (str_split CHR ''\<newline>'' t))"
  by (rule kept_lines_strip) (simp_all add: str_strip_Cons_space str_strip_snoc_space)

lemma str_strip_empty_iff: "str_strip s = [] \<longleftrightarrow> (\<forall>c\<in>set s. isspace c)"
proof
  assume "str_strip s = []"
  then have "\<forall>c\<in>set (dropWhile isspace s). isspace c"
    by (simp add: str_strip_def str_rstrip_def str_lstrip_def dropWhile_eq_Nil_conv)
  moreover have "dropWhile isspace s \<noteq> [] \<Longrightarrow> \<not> isspace (hd (dropWhile isspace s))"
    by (rule hd_dropWhile)
  ultimately have "dropWhile isspace s = []"
    by (cases "dropWhile isspace s") auto
  then show "\<forall>c\<in>set s. isspace c"
    by (simp add: dropWhile_eq_Nil_conv)
next
  assume "\<forall>c\<in>set s. isspace c"
  then have "dropWhile isspace s = []" by simp
  then show "str_strip s = []"
    by (simp only: str_strip_def str_rstrip_def str_lstrip_def rev.simps dropWhile.simps)
qed

lemma contains_lower_lstrip:
  assumes "k \<noteq> []" "\<not> isspace (hd k)"
  shows "sublist k (str_lower (str_lstrip s)) = sublist k (str_lower s)"
proof (induction s)
  case Nil
  show ?case by (simp add: str_lstrip_def)
next
  case (Cons x s)
  show ?case
  proof (cases "isspace x")
    case True
    with Cons assms show ?thesis
      by (simp add: str_lstrip_def str_lower_def lower_char_space sublist_space_Cons)
  next
    case False
    then show ?thesis by (simp add: str_lstrip_def)
  qed
qed

lemma contains_lower_rstrip:
  assumes "k \<noteq> []" "\<not> isspace (last k)"
  shows "sublist k (str_lower (str_rstrip s)) = sublist k (str_lower s)"
proof (induction s rule: rev_induct)
  case Nil
  show ?case by (simp add: str_rstrip_def)
next
  case (snoc x s)
  show ?case
  proof (cases "isspace x")
    case True
    with snoc assms show ?thesis
      by (simp add: str_rstrip_snoc str_lower_def lower_char_space sublist_space_snoc)
  next
    case False
    then show ?thesis by (simp add: str_rstrip_snoc)
  qed
qed

lemma contains_lower_strip:
  assumes "k \<noteq> []" "\<not> isspace (hd k)" "\<not> isspace (last k)"
  shows "str_contains k (str_lower (str_strip s)) = sublist k (str_lower s)"
  using contains_lower_rstrip [OF assms(1,3), of "str_lstrip s"]
    contains_lower_lstrip [OF assms(1,2), of s]
  by (simp add: str_strip_def str_contains_sublist)

lemma table_trigger_raw:
  "table_trigger (str_strip raw_input) (str_strip raw_response) =
     (sublist ''timetable'' (str_lower raw_input)
      \<or> sublist ''table form'' (str_lower raw_input)
      \<or> sublist ''tabular'' (str_lower raw_response))"
  by (simp add: table_trigger_def contains_lower_strip isspace_def whitespace_def)

section \<open>The table extractor: what it returns\<close>

lemma kept_lines_empty_iff:
  "table_lines text = [] \<longleftrightarrow> filter keep_line (str_split CHR ''\<newline>'' text) = []"
proof -
  have "map split_cells (table_lines text) = [] \<longleftrightarrow>
        map split_cells (filter keep_line (str_split CHR ''\<newline>'' text)) = []"
    by (simp only: table_lines_filter cells_of_kept_lines)
  then show ?thesis by simp
qed

lemma extract_table_fails_iff:
  "extract_table text = Inl (ValueError ''No table detected in the response.'')
   \<longleftrightarrow> table_lines text = []"
  by (simp add: extract_table_def split: list.splits)

lemma no_bar_no_lines:
  assumes "CHR ''|'' \<notin> set text"
  shows "filter keep_line (str_split CHR ''\<newline>'' text) = []"
proof -
  have "\<not> keep_line line" if "line \<in> set (str_split CHR ''\<newline>'' text)" for line
    using str_split_fields [OF that] assms by (auto simp: keep_line_def)
  then show ?thesis by (simp add: filter_empty_conv)
qed

lemma chat_success:
  assumes "data ''user_input'' = Some raw" "str_strip raw \<noteq> []" "network_up e"
    "send_message e
       (conversation_history w @ [\<lparr>role = ''user'', parts = [str_strip raw @ ''\<newline>'']\<rparr>])
       (str_strip raw) = Inr reply"
  shows "chat e data w = 
    (let w3 = append_turn ''model'' (str_strip reply)
               (record_event (SendMessage (conversation_history w @ [\<lparr>role = ''user'', parts = [str_strip raw @ ''\<newline>'']\<rparr>]) (str_strip raw))
                  (append_turn ''user'' (str_strip raw) w))
     in if table_trigger (str_strip raw) (str_strip reply)
        then (case extract_table (str_strip reply) of
                Inr t \<Rightarrow> \<lparr>response = str_strip reply, table = Some t\<rparr>
              | Inl err \<Rightarrow> \<lparr>response = str_strip reply, table = None\<rparr>,
              record_event (ExtractTable (str_strip reply)) w3)
        else (\<lparr>response = str_strip reply, table = None\<rparr>, w3))"
  using assms
  by (simp add: chat_def chat_try_def net_check_def Let_def append_turn_def record_event_def
      jsonify_response_def split: sum.splits)

text \<open>
  Claim C3. \<open>extract_table\<close> on the three lines \<open>A | B\<close>, \<open>1 | 2\<close>, \<open>3 | 4\<close> returns the
  headers \<open>A\<close>, \<open>B\<close> and the rows \<open>1, 2\<close> and \<open>3, 4\<close>. In general, when the lines of the
  input that pass the filter are \<open>header_line\<close> followed by \<open>data_lines\<close>, the headers are
  the fields of \<open>header_line\<close> between the bars, each trimmed, and every line of
  \<open>data_lines\<close> gives one row in the same way. The lines are those of the input itself:
  that the code trims the whole text before it splits it changes no cell. Row lengths are
  not compared with the header: the third input has a row of three cells and a row with an
  empty cell under two headers.
\<close>

theorem extract_table_headers_and_rows:
  "extract_table ''A | B\<newline>1 | 2\<newline>3 | 4''
     = Inr \<lparr>headers = [''A'', ''B''], rows = [[''1'', ''2''], [''3'', ''4'']]\<rparr>
   \<and> (filter keep_line (str_split CHR ''\<newline>'' text) = header_line # data_lines \<longrightarrow>
        extract_table text
          = Inr \<lparr>headers = map str_strip (str_split CHR ''|'' header_line),
                 rows = map (\<lambda>row. map str_strip (str_split CHR ''|'' row)) data_lines\<rparr>)
   \<and> extract_table ''A | B\<newline>1 | 2 | 3\<newline>4 |''
     = Inr \<lparr>headers = [''A'', ''B''], rows = [[''1'', ''2'', ''3''], [''4'', '''']]\<rparr>"
proof (intro conjI impI)
  show "extract_table ''A | B\<newline>1 | 2\<newline>3 | 4''
     = Inr \<lparr>headers = [''A'', ''B''], rows = [[''1'', ''2''], [''3'', ''4'']]\<rparr>"
    by code_simp
  show "extract_table ''A | B\<newline>1 | 2 | 3\<newline>4 |''
     = Inr \<lparr>headers = [''A'', ''B''], rows = [[''1'', ''2'', ''3''], [''4'', '''']]\<rparr>"
    by code_simp
next
  assume kept: "filter keep_line (str_split CHR ''\<newline>'' text) = header_line # data_lines"
  have "map split_cells (table_lines text) = split_cells header_line # map split_cells data_lines"
    using kept by (simp only: table_lines_filter cells_of_kept_lines list.map)
  then obtain h ds where "table_lines text = h # ds" "split_cells h = split_cells header_line"
    "map split_cells ds = map split_cells data_lines"
    by (cases "table_lines text") auto
  then show "extract_table text
          = Inr \<lparr>headers = map str_strip (str_split CHR ''|'' header_line),
                 rows = map (\<lambda>row. map str_strip (str_split CHR ''|'' row)) data_lines\<rparr>"
    by (simp add: extract_table_def split_cells_def [abs_def])
qed

theorem extract_table_headers_and_rows_witness:
  "filter keep_line (str_split CHR ''\<newline>'' ''\<newline> x | y \<newline>see spreadsheet | z\<newline>p | q | r\<newline>'')
     = ['' x | y '', ''p | q | r'']
   \<and> extract_table ''\<newline> x | y \<newline>see spreadsheet | z\<newline>p | q | r\<newline>''
     = Inr \<lparr>headers = [''x'', ''y''], rows = [[''p'', ''q'', ''r'']]\<rparr>"
proof -
  have kept: "filter keep_line (str_split CHR ''\<newline>'' ''\<newline> x | y \<newline>see spreadsheet | z\<newline>p | q | r\<newline>'')
     = ['' x | y '', ''p | q | r'']"
    by code_simp
  have cells: "map str_strip (str_split CHR ''|'' '' x | y '') = [''x'', ''y'']"
    "map str_strip (str_split CHR ''|'' ''p | q | r'') = [''p'', ''q'', ''r'']"
    by code_simp+
  from extract_table_headers_and_rows
    [of "''\<newline> x | y \<newline>see spreadsheet | z\<newline>p | q | r\<newline>''" "'' x | y ''" "[''p | q | r'']"]
    kept cells
  show ?thesis by simp
qed

text \<open>
  Claim C4. \<open>extract_table\<close> raises \<open>ValueError("No table detected in the response.")\<close>
  exactly when no line of the input passes the filter, so in particular whenever the input
  has no bar at all. In \<open>chat\<close> the failure never reaches the client: on a turn where the
  Model Gateway has replied and \<open>extract_table\<close> fails on the reply, the handler answers
  with the plain response, whether or not the extraction was tried.
\<close>

theorem no_table_detected:
  "(extract_table text = Inl (ValueError ''No table detected in the response.'')
      \<longleftrightarrow> filter keep_line (str_split CHR ''\<newline>'' text) = [])
   \<and> (CHR ''|'' \<notin> set text \<longrightarrow>
        extract_table text = Inl (ValueError ''No table detected in the response.''))
   \<and> (data ''user_input'' = Some raw \<and> str_strip raw \<noteq> [] \<and> network_up e
       \<and> send_message e
            (conversation_history w @ [\<lparr>role = ''user'', parts = [str_strip raw @ ''\<newline>'']\<rparr>])
            (str_strip raw) = Inr reply
       \<and> extract_table (str_strip reply) = Inl err \<longrightarrow>
        fst (chat e data w) = \<lparr>response = str_strip reply, table = None\<rparr>)"
proof (intro conjI impI)
  show "extract_table text = Inl (ValueError ''No table detected in the response.'')
      \<longleftrightarrow> filter keep_line (str_split CHR ''\<newline>'' text) = []"
    by (simp only: extract_table_fails_iff kept_lines_empty_iff)
next
  assume "CHR ''|'' \<notin> set text"
  then have "filter keep_line (str_split CHR ''\<newline>'' text) = []"
    by (rule no_bar_no_lines)
  then show "extract_table text = Inl (ValueError ''No table detected in the response.'')"
    by (simp only: extract_table_fails_iff kept_lines_empty_iff)
next
  assume a: "data ''user_input'' = Some raw \<and> str_strip raw \<noteq> [] \<and> network_up e
       \<and> send_message e
            (conversation_history w @ [\<lparr>role = ''user'', parts = [str_strip raw @ ''\<newline>'']\<rparr>])
            (str_strip raw) = Inr reply
       \<and> extract_table (str_strip reply) = Inl err"
  then have "chat e data w = 
    (let w3 = append_turn ''model'' (str_strip reply)
               (record_event (SendMessage (conversation_history w @ [\<lparr>role = ''user'', parts = [str_strip raw @ ''\<newline>'']\<rparr>]) (str_strip raw))
                  (append_turn ''user'' (str_strip raw) w))
     in if table_trigger (str_strip raw) (str_strip reply)
        then (case extract_table (str_strip reply) of
                Inr t \<Rightarrow> \<lparr>response = str_strip reply, table = Some t\<rparr>
              | Inl err \<Rightarrow> \<lparr>response = str_strip reply, table = None\<rparr>,
              record_event (ExtractTable (str_strip reply)) w3)
        else (\<lparr>response = str_strip reply, table = None\<rparr>, w3))"
    by (intro chat_success) simp_all
  with a show "fst (chat e data w) = \<lparr>response = str_strip reply, table = None\<rparr>"
    by (simp add: Let_def)
qed

theorem no_table_detected_witness:
  "CHR ''|'' \<notin> set ''In tabular form: none. ''
   \<and> extract_table ''In tabular form: none. ''
       = Inl (ValueError ''No table detected in the response.'')
   \<and> greeting_body ''user_input'' = Some '' hello '' \<and> str_strip '' hello '' \<noteq> []
   \<and> network_up prose_env
   \<and> extract_table (str_strip ''In tabular form: none. '')
       = Inl (ValueError ''No table detected in the response.'')
   \<and> fst (chat prose_env greeting_body initial_world)
       = \<lparr>response = ''In tabular form: none.'', table = None\<rparr>"
proof -
  have strip: "str_strip '' hello '' = ''hello''"
    "str_strip ''In tabular form: none. '' = ''In tabular form: none.''"
    by code_simp+
  have fails: "extract_table ''In tabular form: none.''
       = Inl (ValueError ''No table detected in the response.'')"
    by code_simp
  from no_table_detected
    [of "''In tabular form: none. ''" greeting_body "'' hello ''" prose_env initial_world
      "''In tabular form: none. ''" "ValueError ''No table detected in the response.''"]
    strip fails
  show ?thesis
    by (simp add: greeting_body_def prose_env_def sample_env_def)
qed

text \<open>
  Claim C5. The lines \<open>extract_table\<close> retains are, in order, the lines of the trimmed text
  that contain a bar and whose lowercased content contains neither \<open>customize\<close> nor
  \<open>spreadsheet\<close>; a line is retained if and only if it meets this condition. Up to the
  whitespace around each line, they are the lines of the input itself that meet it.
\<close>

theorem retained_lines_criterion:
  "table_lines text
     = filter (\<lambda>line. CHR ''|'' \<in> set line
                      \<and> \<not> sublist ''customize'' (str_lower line)
                      \<and> \<not> sublist ''spreadsheet'' (str_lower line))
         (str_split CHR ''\<newline>'' (str_strip text))
   \<and> map str_strip (table_lines text)
     = map str_strip
         (filter (\<lambda>line. CHR ''|'' \<in> set line
                      \<and> \<not> sublist ''customize'' (str_lower line)
                      \<and> \<not> sublist ''spreadsheet'' (str_lower line))
            (str_split CHR ''\<newline>'' text))
   \<and> (\<forall>line \<in> set (str_split CHR ''\<newline>'' (str_strip text)).
         line \<in> set (table_lines text) \<longleftrightarrow>
           CHR ''|'' \<in> set line
           \<and> \<not> sublist ''customize'' (str_lower line)
           \<and> \<not> sublist ''spreadsheet'' (str_lower line))"
proof -
  have keep: "keep_line = (\<lambda>line. CHR ''|'' \<in> set line
                      \<and> \<not> sublist ''customize'' (str_lower line)
                      \<and> \<not> sublist ''spreadsheet'' (str_lower line))"
    by (rule ext) (simp add: keep_line_def str_contains_sublist)
  have "table_lines text = filter keep_line (str_split CHR ''\<newline>'' (str_strip text))"
    by (rule table_lines_filter)
  moreover have "map str_strip (table_lines text)
     = map str_strip (filter keep_line (str_split CHR ''\<newline>'' text))"
    by (simp only: table_lines_filter strip_of_kept_lines)
  moreover have "\<forall>line \<in> set (str_split CHR ''\<newline>'' (str_strip text)).
         line \<in> set (table_lines text) \<longleftrightarrow> keep_line line"
    by (simp add: table_lines_filter)
  ultimately show ?thesis
    unfolding keep by blast
qed

theorem retained_lines_criterion_witness:
  "''You can customize | this'' \<in> set (str_split CHR ''\<newline>'' (str_strip '' a | b\<newline>You can customize | this\<newline>In a SpreadSheet | c\<newline>no bar\<newline>d | e  ''))
   \<and> ''You can customize | this'' \<notin> set (table_lines '' a | b\<newline>You can customize | this\<newline>In a SpreadSheet | c\<newline>no bar\<newline>d | e  '')
   \<and> ''In a SpreadSheet | c'' \<notin> set (table_lines '' a | b\<newline>You can customize | this\<newline>In a SpreadSheet | c\<newline>no bar\<newline>d | e  '')
   \<and> ''no bar'' \<notin> set (table_lines '' a | b\<newline>You can customize | this\<newline>In a SpreadSheet | c\<newline>no bar\<newline>d | e  '')
   \<and> ''d | e'' \<in> set (table_lines '' a | b\<newline>You can customize | this\<newline>In a SpreadSheet | c\<newline>no bar\<newline>d | e  '')"
proof -
  have lines: "str_split CHR ''\<newline>'' (str_strip '' a | b\<newline>You can customize | this\<newline>In a SpreadSheet | c\<newline>no bar\<newline>d | e  '')
    = [''a | b'', ''You can customize | this'', ''In a SpreadSheet | c'', ''no bar'', ''d | e'']"
    by code_simp
  have low: "str_lower ''You can customize | this'' = ''you can customize | this''"
    "str_lower ''In a SpreadSheet | c'' = ''in a spreadsheet | c''"
    "str_lower ''no bar'' = ''no bar''" "str_lower ''d | e'' = ''d | e''"
    by code_simp+
  have sub: "sublist ''customize'' ''you can customize | this''"
    "sublist ''spreadsheet'' ''in a spreadsheet | c''"
    "\<not> sublist ''customize'' ''d | e''" "\<not> sublist ''spreadsheet'' ''d | e''"
    by code_simp+
  from retained_lines_criterion
    [of "'' a | b\<newline>You can customize | this\<newline>In a SpreadSheet | c\<newline>no bar\<newline>d | e  ''"]
    lines low sub
  show ?thesis by simp
qed

section \<open>The /chat handler: what it answers and what it touches\<close>

text \<open>
  Claim C6. On a \<open>/chat\<close> turn that succeeds (the input is not blank, the network is up
  and the Model Gateway replies), the handler calls the gateway once and then calls
  \<open>extract_table\<close> if and only if the user's input contains \<open>timetable\<close> or \<open>table form\<close>
  or the model's response contains \<open>tabular\<close>, all three regardless of case. When none of
  the three holds nothing is extracted and the answer is the plain response; when one
  holds the answer carries the table if the extraction succeeds.
\<close>

theorem chat_table_trigger:
  assumes "data ''user_input'' = Some raw" and "str_strip raw \<noteq> []" and "network_up e"
    and "send_message e
           (conversation_history w @ [\<lparr>role = ''user'', parts = [str_strip raw @ ''\<newline>'']\<rparr>])
           (str_strip raw) = Inr reply"
  shows "events (snd (chat e data w))
           = events w
             @ [SendMessage
                  (conversation_history w
                     @ [\<lparr>role = ''user'', parts = [str_strip raw @ ''\<newline>'']\<rparr>])
                  (str_strip raw)]
             @ (if sublist ''timetable'' (str_lower raw)
                   \<or> sublist ''table form'' (str_lower raw)
                   \<or> sublist ''tabular'' (str_lower reply)
                then [ExtractTable (str_strip reply)] else [])
         \<and> fst (chat e data w)
           = (if sublist ''timetable'' (str_lower raw)
                 \<or> sublist ''table form'' (str_lower raw)
                 \<or> sublist ''tabular'' (str_lower reply)
              then (case extract_table (str_strip reply) of
                      Inr t \<Rightarrow> \<lparr>response = str_strip reply, table = Some t\<rparr>
                    | Inl err \<Rightarrow> \<lparr>response = str_strip reply, table = None\<rparr>)
              else \<lparr>response = str_strip reply, table = None\<rparr>)"
  using chat_success [of data raw e w reply] assms table_trigger_raw [of raw reply]
  by (simp add: Let_def append_turn_def record_event_def)

theorem chat_table_trigger_witness:
  "timetable_body ''user_input'' = Some ''Generate a Timetable''
   \<and> str_strip ''Generate a Timetable'' \<noteq> [] \<and> network_up sample_env
   \<and> sublist ''timetable'' (str_lower ''Generate a Timetable'')
   \<and> events (snd (chat sample_env timetable_body initial_world))
       = [SendMessage [\<lparr>role = ''user'', parts = [''Generate a Timetable\<newline>'']\<rparr>]
            ''Generate a Timetable'',
          ExtractTable ''Here it is: \<newline>Day | Subject\<newline>Mon | Maths'']
   \<and> fst (chat sample_env timetable_body initial_world)
       = \<lparr>response = ''Here it is: \<newline>Day | Subject\<newline>Mon | Maths'',
          table = Some \<lparr>headers = [''Day'', ''Subject''], rows = [[''Mon'', ''Maths'']]\<rparr>\<rparr>"
proof -
  have strip: "str_strip ''Generate a Timetable'' = ''Generate a Timetable''"
    "str_strip '' Here it is: \<newline>Day | Subject\<newline>Mon | Maths \<newline>''
       = ''Here it is: \<newline>Day | Subject\<newline>Mon | Maths''"
    by code_simp+
  have trig: "sublist ''timetable'' (str_lower ''Generate a Timetable'')"
    by code_simp
  have tab: "extract_table ''Here it is: \<newline>Day | Subject\<newline>Mon | Maths''
       = Inr \<lparr>headers = [''Day'', ''Subject''], rows = [[''Mon'', ''Maths'']]\<rparr>"
    by code_simp
  from chat_table_trigger
    [of timetable_body "''Generate a Timetable''" sample_env initial_world
      "'' Here it is: \<newline>Day | Subject\<newline>Mon | Maths \<newline>''"]
    strip trig tab
  show ?thesis
    by (simp add: timetable_body_def sample_env_def initial_world_def)
qed

text \<open>
  Claim C7. When the \<open>user_input\<close> of a \<open>/chat\<close> request is empty or consists of whitespace
  only, the handler answers \<open>Input cannot be empty.\<close> and leaves the world as it was: the
  conversation store is unchanged and no call of the Model Gateway is recorded.
\<close>

theorem chat_blank_input:
  assumes "data ''user_input'' = Some raw" and "\<forall>c\<in>set raw. isspace c"
  shows "chat e data w = (\<lparr>response = ''Input cannot be empty.'', table = None\<rparr>, w)"
proof -
  have "str_strip raw = []"
    using assms(2) by (simp only: str_strip_empty_iff)
  with assms(1) show ?thesis
    by (simp add: chat_def jsonify_response_def)
qed

theorem chat_blank_input_witness:
  "blank_body ''user_input'' = Some ''  \<newline> ''
   \<and> isspace CHR '' '' \<and> isspace CHR ''\<newline>'' \<and> set ''  \<newline> '' = {CHR '' '', CHR ''\<newline>''}
   \<and> chat failing_gateway_env blank_body initial_world
       = (\<lparr>response = ''Input cannot be empty.'', table = None\<rparr>, initial_world)"
proof -
  have body: "blank_body ''user_input'' = Some ''  \<newline> ''"
    by (simp add: blank_body_def)
  have blank: "\<forall>c\<in>set ''  \<newline> ''. isspace c"
    by (simp add: isspace_def whitespace_def)
  have spaces: "isspace CHR '' ''" "isspace CHR ''\<newline>''"
    by (simp_all add: isspace_def whitespace_def)
  have chars: "set ''  \<newline> '' = {CHR '' '', CHR ''\<newline>''}"
    by auto
  from chat_blank_input [of blank_body "''  \<newline> ''" failing_gateway_env initial_world] body blank
  have "chat failing_gateway_env blank_body initial_world
       = (\<lparr>response = ''Input cannot be empty.'', table = None\<rparr>, initial_world)"
    by simp
  with body spaces chars show ?thesis by simp
qed

text \<open>
  Claim C9. A \<open>/chat\<close> request whose body has no \<open>user_input\<close> key is served like one with
  an empty input: the handler answers \<open>Input cannot be empty.\<close> and leaves the world as it
  was, the conversation store unchanged and no call of the Model Gateway recorded.
\<close>

theorem chat_missing_user_input:
  assumes "data ''user_input'' = None"
  shows "chat e data w = (\<lparr>response = ''Input cannot be empty.'', table = None\<rparr>, w)"
proof -
  have "str_strip [] = []" by (simp add: str_strip_def str_lstrip_def str_rstrip_def)
  with assms show ?thesis
    by (simp add: chat_def jsonify_response_def)
qed

theorem chat_missing_user_input_witness:
  "no_input_body ''user_input'' = None
   \<and> chat sample_env no_input_body initial_world
       = (\<lparr>response = ''Input cannot be empty.'', table = None\<rparr>, initial_world)"
proof -
  have body: "no_input_body ''user_input'' = None"
    by (simp add: no_input_body_def)
  from chat_missing_user_input [of no_input_body sample_env initial_world] body
  show ?thesis by simp
qed

section \<open>The /upload handler: validation, dispatch and the scratch file\<close>

lemma takeWhile_to_sep:
  assumes "c \<notin> set ext"
  shows "takeWhile (\<lambda>x. x \<noteq> c) (rev ext @ c # rest) = rev ext"
proof -
  have "\<forall>x\<in>set (rev ext). x \<noteq> c"
    using assms by auto
  then have "takeWhile (\<lambda>x. x \<noteq> c) (rev ext) = rev ext"
    by (simp only: takeWhile_eq_all_conv)
  then show ?thesis
    by (simp add: takeWhile_tail)
qed

lemma rsplit_extension:
  assumes "CHR ''.'' \<notin> set ext"
  shows "str_rsplit1 CHR ''.'' (base @ ''.'' @ ext) ! 1 = ext"
proof -
  have "takeWhile (\<lambda>c. c \<noteq> CHR ''.'') (rev ext @ CHR ''.'' # rev base) = rev ext"
    using assms by (rule takeWhile_to_sep)
  then show ?thesis
    by (simp add: str_rsplit1_def)
qed

lemma allowed_file_extension:
  assumes "CHR ''.'' \<notin> set ext"
  shows "allowed_file (base @ ''.'' @ ext) \<longleftrightarrow> str_lower ext \<in> ALLOWED_EXTENSIONS"
  using rsplit_extension [OF assms, of base]
  by (simp add: allowed_file_def)

lemma last_dot_extension:
  assumes "p @ ''.'' @ ext = q @ ''.'' @ k" "CHR ''.'' \<notin> set ext" "CHR ''.'' \<notin> set k"
  shows "ext = k"
proof -
  have "takeWhile (\<lambda>c. c \<noteq> CHR ''.'') (rev (p @ ''.'' @ ext)) = rev ext"
    using takeWhile_to_sep [OF assms(2), of "rev p"] by simp
  moreover have "takeWhile (\<lambda>c. c \<noteq> CHR ''.'') (rev (q @ ''.'' @ k)) = rev k"
    using takeWhile_to_sep [OF assms(3), of "rev q"] by simp
  moreover have "rev (p @ ''.'' @ ext) = rev (q @ ''.'' @ k)"
    using assms(1) by (rule arg_cong)
  ultimately have "rev ext = rev k"
    by (simp only:)
  then show ?thesis by simp
qed

lemma not_endswith_other_extension:
  assumes "CHR ''.'' \<notin> set ext" "CHR ''.'' \<notin> set k" "ext \<noteq> k"
  shows "\<not> str_endswith (p @ ''.'' @ ext) (''.'' @ k)"
proof
  assume "str_endswith (p @ ''.'' @ ext) (''.'' @ k)"
  then obtain q where "p @ ''.'' @ ext = q @ ''.'' @ k"
    by (auto simp: str_endswith_def suffix_def)
  from last_dot_extension [OF this assms(1,2)] assms(3) show False by simp
qed

lemma os_path_join_suffix: "\<exists>pre. os_path_join a b = pre @ b"
proof -
  have "os_path_join a b = [] @ b \<or> os_path_join a b = a @ b
        \<or> os_path_join a b = (a @ ''/'') @ b"
    by (simp add: os_path_join_def)
  then show ?thesis by blast
qed


lemma upload_accepted:
  assumes "files ''file'' = Some file" "filename file \<noteq> []" "allowed_file (filename file)"
  shows "upload_file e files w =
    (let fname = secure_filename e (filename file);
         file_path = os_path_join (os_path_join (getcwd e) ''uploads'') fname;
         w1 = w\<lparr>disk := (disk w)(file_path \<mapsto> stream file)\<rparr>
     in if str_endswith fname ''.pdf''
        then upload_try e file_path (extract_pdf_text e (disk w1) file_path) w1
        else if str_endswith fname ''.docx''
        then upload_try e file_path (extract_docx_text e (disk w1) file_path) w1
        else (\<lparr>response = ''Unsupported file format.'', table = None\<rparr>, w1))"
  using assms by (simp add: upload_file_def Let_def jsonify_response_def)

text \<open>
  A file on disk whose path ends neither in \<open>.pdf\<close> nor in \<open>.docx\<close> survives every request:
  \<open>os.remove\<close> is only reached for a path that ends in one of the two.
\<close>

lemma upload_try_keeps_file:
  assumes "disk w p \<noteq> None" "p \<noteq> file_path"
  shows "disk (snd (upload_try e file_path extracted w)) p \<noteq> None"
  using assms
  by (auto simp: upload_try_def os_remove_def append_turn_def record_event_def Let_def
      split: sum.splits option.splits)

lemma path_keeps_ending:
  assumes "str_endswith fname suf"
  shows "str_endswith (os_path_join a fname) suf"
proof -
  obtain pre where "os_path_join a fname = pre @ fname"
    using os_path_join_suffix by blast
  with assms show ?thesis
    by (auto simp: str_endswith_def suffix_def)
qed

lemma chat_disk: "disk (snd (chat e data w)) = disk w"
  by (simp add: chat_def chat_try_def append_turn_def record_event_def Let_def
      split: sum.splits)

lemma upload_file_keeps_file:
  assumes "disk w p \<noteq> None" "\<not> str_endswith p ''.pdf''" "\<not> str_endswith p ''.docx''"
  shows "disk (snd (upload_file e files w)) p \<noteq> None"
proof (cases "files ''file''")
  case None
  with assms(1) show ?thesis by (simp add: upload_file_def)
next
  case (Some upload)
  show ?thesis
  proof (cases "filename upload \<noteq> [] \<and> allowed_file (filename upload)")
    case False
    with Some assms(1) show ?thesis by (auto simp: upload_file_def)
  next
    case True
    let ?fname = "secure_filename e (filename upload)"
    let ?path = "os_path_join (os_path_join (getcwd e) ''uploads'') ?fname"
    let ?w1 = "w\<lparr>disk := (disk w)(?path \<mapsto> stream upload)\<rparr>"
    have w1: "disk ?w1 p \<noteq> None"
      using assms(1) by simp
    have neq: "p \<noteq> ?path" if "str_endswith ?fname ''.pdf'' \<or> str_endswith ?fname ''.docx''"
      using that assms(2,3) path_keeps_ending by blast
    show ?thesis
      using True Some w1 neq upload_try_keeps_file [of ?w1 p ?path]
      by (simp add: upload_accepted Let_def del: fun_upd_apply)
  qed
qed

lemma handle_keeps_file:
  assumes "disk w p \<noteq> None" "\<not> str_endswith p ''.pdf''" "\<not> str_endswith p ''.docx''"
  shows "disk (snd (handle e req w)) p \<noteq> None"
  using assms by (cases req) (simp_all add: chat_disk upload_file_keeps_file)

lemma run_keeps_file:
  assumes "disk w p \<noteq> None" "\<not> str_endswith p ''.pdf''" "\<not> str_endswith p ''.docx''"
  shows "disk (run steps w) p \<noteq> None"
  using assms(1)
proof (induction steps arbitrary: w)
  case Nil
  then show ?case by simp
next
  case (Cons step steps)
  obtain e req where step: "step = (e, req)" by (cases step)
  from Cons.prems have "disk (snd (handle e req w)) p \<noteq> None"
    using assms(2,3) by (rule handle_keeps_file)
  then show ?case
    unfolding step by (simp add: Cons.IH)
qed

text \<open>
  Claim C8. For an uploaded file whose name has an extension (the text after the last dot)
  that, put in lower case as \<open>allowed_file\<close> does, is neither \<open>pdf\<close> nor \<open>docx\<close>, such as
  \<open>.txt\<close>, the handler answers \<open>Invalid file type. Only PDF and DOCX are allowed.\<close> and
  leaves the world as it was: nothing is saved, the conversation store is unchanged and
  no call of the Model Gateway is recorded.
\<close>

theorem upload_invalid_file_type:
  assumes "files ''file'' = Some upload" and "filename upload = base @ ''.'' @ ext"
    and "CHR ''.'' \<notin> set ext" and "str_lower ext \<notin> ALLOWED_EXTENSIONS"
  shows "upload_file e files w
           = (\<lparr>response = ''Invalid file type. Only PDF and DOCX are allowed.'', table = None\<rparr>,
              w)"
proof -
  have "\<not> allowed_file (filename upload)"
    using assms(2,4) allowed_file_extension [OF assms(3), of base] by simp
  moreover have "filename upload \<noteq> []"
    using assms(2) by simp
  ultimately show ?thesis
    using assms(1) by (simp add: upload_file_def jsonify_response_def)
qed

theorem upload_invalid_file_type_witness:
  "txt_upload ''file'' = Some \<lparr>filename = ''notes.txt'', stream = ''plain text''\<rparr>
   \<and> ''notes.txt'' = ''notes'' @ ''.'' @ ''txt'' \<and> CHR ''.'' \<notin> set ''txt''
   \<and> str_lower ''txt'' \<notin> ALLOWED_EXTENSIONS
   \<and> upload_file sample_env txt_upload initial_world
       = (\<lparr>response = ''Invalid file type. Only PDF and DOCX are allowed.'', table = None\<rparr>,
          initial_world)"
proof -
  have low: "str_lower ''txt'' = ''txt''" by code_simp
  from upload_invalid_file_type
    [of txt_upload "\<lparr>filename = ''notes.txt'', stream = ''plain text''\<rparr>" "''notes''" "''txt''"
      sample_env initial_world] low
  show ?thesis
    by (simp add: txt_upload_def ALLOWED_EXTENSIONS_def)
qed

text \<open>
  Claim C10. For an uploaded file whose extension is \<open>pdf\<close> or \<open>docx\<close> only when put in
  lower case, such as \<open>report.PDF\<close>, and whose name keeps that extension under
  \<open>secure_filename\<close>: \<open>allowed_file\<close> accepts it, the file is saved in the uploads folder,
  neither \<open>endswith\<close> test matches, and the handler answers \<open>Unsupported file format.\<close>
  with the conversation store unchanged and no call of the Model Gateway recorded. The
  saved file stays on disk, after this request and after any sequence of later requests.
\<close>

theorem upload_case_mismatch:
  assumes "files ''file'' = Some upload" and "filename upload = base @ ''.'' @ ext"
    and "CHR ''.'' \<notin> set ext" and "str_lower ext \<in> ALLOWED_EXTENSIONS"
    and "ext \<notin> ALLOWED_EXTENSIONS"
    and "secure_filename e (filename upload) = safe_base @ ''.'' @ ext"
  shows "allowed_file (filename upload)
         \<and> upload_file e files w
           = (\<lparr>response = ''Unsupported file format.'', table = None\<rparr>,
              w\<lparr>disk := (disk w)
                   (os_path_join (os_path_join (getcwd e) ''uploads'') (safe_base @ ''.'' @ ext)
                      \<mapsto> stream upload)\<rparr>)
         \<and> (\<forall>steps.
               disk (run steps (snd (upload_file e files w)))
                 (os_path_join (os_path_join (getcwd e) ''uploads'') (safe_base @ ''.'' @ ext))
               \<noteq> None)"
proof -
  let ?path = "os_path_join (os_path_join (getcwd e) ''uploads'') (safe_base @ ''.'' @ ext)"
  have allowed: "allowed_file (filename upload)"
    using assms(2,4) allowed_file_extension [OF assms(3), of base] by simp
  have nonempty: "filename upload \<noteq> []"
    using assms(2) by simp
  have ext: "ext \<noteq> ''pdf''" "ext \<noteq> ''docx''"
    using assms(5) by (auto simp: ALLOWED_EXTENSIONS_def)
  have no_pdf: "\<not> str_endswith (p @ ''.'' @ ext) ''.pdf''" for p
    using not_endswith_other_extension [OF assms(3) _ ext(1), of p] by simp
  have no_docx: "\<not> str_endswith (p @ ''.'' @ ext) ''.docx''" for p
    using not_endswith_other_extension [OF assms(3) _ ext(2), of p] by simp
  have result: "upload_file e files w
           = (\<lparr>response = ''Unsupported file format.'', table = None\<rparr>,
              w\<lparr>disk := (disk w)(?path \<mapsto> stream upload)\<rparr>)"
    using upload_accepted [of files upload e w] assms(1,6) nonempty allowed no_pdf no_docx
    by (simp add: Let_def)
  obtain pre where "?path = pre @ safe_base @ ''.'' @ ext"
    using os_path_join_suffix by blast
  then have "?path = (pre @ safe_base) @ ''.'' @ ext" by simp
  then have path: "\<not> str_endswith ?path ''.pdf''" "\<not> str_endswith ?path ''.docx''"
    using no_pdf [of "pre @ safe_base"] no_docx [of "pre @ safe_base"] by simp_all
  have "disk (snd (upload_file e files w)) ?path \<noteq> None"
    by (simp add: result)
  then have "\<forall>steps. disk (run steps (snd (upload_file e files w))) ?path \<noteq> None"
    using path by (simp add: run_keeps_file)
  with allowed result show ?thesis by blast
qed

theorem upload_case_mismatch_witness:
  "upper_pdf_upload ''file'' = Some \<lparr>filename = ''report.PDF'', stream = ''%PDF-1.7 ...''\<rparr>
   \<and> ''report.PDF'' = ''report'' @ ''.'' @ ''PDF'' \<and> CHR ''.'' \<notin> set ''PDF''
   \<and> str_lower ''PDF'' \<in> ALLOWED_EXTENSIONS \<and> ''PDF'' \<notin> ALLOWED_EXTENSIONS
   \<and> secure_filename sample_env ''report.PDF'' = ''report'' @ ''.'' @ ''PDF''
   \<and> allowed_file ''report.PDF''
   \<and> fst (upload_file sample_env upper_pdf_upload initial_world)
       = \<lparr>response = ''Unsupported file format.'', table = None\<rparr>
   \<and> conversation_history (snd (upload_file sample_env upper_pdf_upload initial_world)) = []
   \<and> events (snd (upload_file sample_env upper_pdf_upload initial_world)) = []
   \<and> disk (snd (upload_file sample_env upper_pdf_upload initial_world))
        ''/srv/app/uploads/report.PDF'' = Some ''%PDF-1.7 ...''
   \<and> disk (run [(sample_env, PostUpload pdf_upload), (sample_env, PostChat greeting_body)]
             (snd (upload_file sample_env upper_pdf_upload initial_world)))
        ''/srv/app/uploads/report.PDF'' \<noteq> None"
proof -
  let ?upload = "\<lparr>filename = ''report.PDF'', stream = ''%PDF-1.7 ...''\<rparr>"
  have low: "str_lower ''PDF'' = ''pdf''" by code_simp
  have path: "os_path_join (os_path_join ''/srv/app'' ''uploads'') ''report.PDF''
                = ''/srv/app/uploads/report.PDF''"
    by code_simp
  have cwd: "getcwd sample_env = ''/srv/app''"
    by (simp add: sample_env_def)
  have h1: "upper_pdf_upload ''file'' = Some ?upload"
    by (simp add: upper_pdf_upload_def)
  have h2: "filename ?upload = ''report'' @ ''.'' @ ''PDF''" by simp
  have h3: "CHR ''.'' \<notin> set ''PDF''" by simp
  have h4: "str_lower ''PDF'' \<in> ALLOWED_EXTENSIONS"
    by (simp add: low ALLOWED_EXTENSIONS_def)
  have h5: "''PDF'' \<notin> ALLOWED_EXTENSIONS"
    by (simp add: ALLOWED_EXTENSIONS_def)
  have h6: "secure_filename sample_env (filename ?upload) = ''report'' @ ''.'' @ ''PDF''"
    by (simp add: sample_env_def)
  note main = upload_case_mismatch
    [of upper_pdf_upload ?upload "''report''" "''PDF''" sample_env "''report''" initial_world,
      OF h1 h2 h3 h4 h5 h6]
  have allowed: "allowed_file ''report.PDF''"
    using main by simp
  have result: "upload_file sample_env upper_pdf_upload initial_world
       = (\<lparr>response = ''Unsupported file format.'', table = None\<rparr>,
          initial_world\<lparr>disk := (disk initial_world)
                                  (''/srv/app/uploads/report.PDF'' \<mapsto> ''%PDF-1.7 ...'')\<rparr>)"
    using main [THEN conjunct2, THEN conjunct1] path cwd by simp
  have later:
    "disk (run [(sample_env, PostUpload pdf_upload), (sample_env, PostChat greeting_body)]
             (snd (upload_file sample_env upper_pdf_upload initial_world)))
        ''/srv/app/uploads/report.PDF'' \<noteq> None"
    using main [THEN conjunct2, THEN conjunct2, THEN spec,
        of "[(sample_env, PostUpload pdf_upload), (sample_env, PostChat greeting_body)]"]
      path cwd
    by simp
  have now: "fst (upload_file sample_env upper_pdf_upload initial_world)
       = \<lparr>response = ''Unsupported file format.'', table = None\<rparr>"
    "conversation_history (snd (upload_file sample_env upper_pdf_upload initial_world)) = []"
    "events (snd (upload_file sample_env upper_pdf_upload initial_world)) = []"
    "disk (snd (upload_file sample_env upper_pdf_upload initial_world))
        ''/srv/app/uploads/report.PDF'' = Some ''%PDF-1.7 ...''"
    unfolding result by (simp_all add: initial_world_def)
  from h1 h3 h4 h5 h6 allowed now later show ?thesis
    by simp
qed

text \<open>
  Claim C2 does not hold of the code. \<open>os.remove\<close> is the statement after the extraction
  inside the \<open>try\<close> block, so an extractor that raises skips it: for \<open>notes.pdf\<close> with a
  content PyPDF2 cannot read, the handler answers \<open>Error processing file: ...\<close> and the
  file saved in the uploads folder is still on disk when it returns.
\<close>

theorem upload_extraction_failure_leaves_file:
  "fst (upload_file corrupt_pdf_env pdf_upload initial_world)
     = \<lparr>response = ''Error processing file: EOF marker not found'', table = None\<rparr>
   \<and> disk initial_world ''/srv/app/uploads/notes.pdf'' = None
   \<and> disk (snd (upload_file corrupt_pdf_env pdf_upload initial_world))
        ''/srv/app/uploads/notes.pdf'' = Some ''%PDF-1.7 ...''"
proof -
  have allowed: "allowed_file ''notes.pdf''" by code_simp
  have path: "os_path_join (os_path_join ''/srv/app'' ''uploads'') ''notes.pdf''
                = ''/srv/app/uploads/notes.pdf''"
    by code_simp
  have ends: "str_endswith ''notes.pdf'' ''.pdf''" by code_simp
  show ?thesis
    using allowed path ends
    by (simp add: upload_file_def upload_try_def extract_pdf_text_def pdf_upload_def
        corrupt_pdf_env_def sample_env_def initial_world_def jsonify_response_def Let_def)
qed

section \<open>The conversation store across requests\<close>





















end
